theory Spec2Isabelle
  imports Main "HOL-Library.Word"
begin

unbundle bit_operations_syntax

section \<open>Data model of \<open>ant.go\<close>\<close>

text \<open>
  Go's \<open>byte\<close> and \<open>uint8\<close> are 8-bit words: \<open>+\<close>, \<open>-\<close> and \<open>*\<close> wrap around,
  \<open>%\<close> and \<open><\<close> are unsigned, \<open>|\<close> is \<open>OR\<close> and \<open>x << 5\<close> is \<open>push_bit 5 x\<close>.
\<close>

type_synonym byte = "8 word"

text \<open>
  Modelled from the spec: the type \<open>Message\<close> and its constructor \<open>NewMessage\<close> are
  declared in a file that is not part of the sources at hand. The spec describes a Message as
  a message-id (one byte) and a payload (a variable-length byte sequence).
\<close>

datatype Message = NewMessage (mesg_id: byte) (mesg_payload: "byte list")

text \<open>
  The protocol constants \<open>MESG_...\<close> that \<open>ant.go\<close> uses are declared elsewhere as well.
  Every function below takes them as a parameter \<open>K\<close>.
\<close>

record mesg_consts =
  MESG_TX_SYNC :: byte
  MESG_RADIO_TX_POWER_ID :: byte
  MESG_BROADCAST_DATA_ID :: byte
  MESG_ACKNOWLEDGED_DATA_ID :: byte
  MESG_BURST_DATA_ID :: byte

text \<open>
  The run-time panics of the code: the three explicit \<open>panic\<close> calls of the command layer
  (the first carries \<open>len(data)\<close>, as the panic message does), and the two panics that Go
  raises itself on an index or a slice expression out of range.
\<close>

datatype panic =
    DataLengthNot8 nat
  | DataLengthNotMultipleOf8
  | SearchWaveformNotAllowed
  | IndexOutOfRange nat nat
  | SliceBoundsOutOfRange nat nat

text \<open>
  The struct \<open>Ant\<close>, reduced to the channels on which the code communicates and to what
  reaches the driver. The channels are unbuffered. The list \<open>write_chan\<close> stands for the
  channel \<open>write\<close> (\<open>write\<close> alone is a keyword of Isabelle) and holds, oldest first,
  the Messages sent on the channel that its receiver has not taken yet; likewise
  \<open>writeInTimeslot\<close>. \<open>stopper\<close> tells whether a shutdown signal is offered,
  \<open>decoder\<close> lists the bytes handed to the byte channel so far, \<open>driver_written\<close> the
  byte strings passed to \<open>driver.Write\<close>, and \<open>stopped\<close> whether \<open>loop\<close> has
  returned (its deferred calls close the channels and the driver).

  A command of the command layer is modelled from its call to its return or panic. A send
  \<open>dev.write <- message\<close> appends the Message to the list of its channel: the send
  blocks until a receiver takes the Message, and the command is followed as if each of its
  sends is received in the end, so that the list shows what the command sends and in which
  order.
\<close>

record Ant =
  write_chan :: "Message list"
  writeInTimeslot :: "Message list"
  stopper :: bool
  decoder :: "byte list"
  driver_written :: "byte list list"
  stopped :: bool

text \<open>
  A command either returns, or panics; in both cases the channels are as the command left
  them at that moment.
\<close>

datatype outcome = Returned Ant | Panicked panic Ant

fun chans_of :: "outcome \<Rightarrow> Ant" where
  "chans_of (Returned s) = s"
| "chans_of (Panicked p s) = s"

fun has_panicked :: "outcome \<Rightarrow> bool" where
  "has_panicked (Returned s) = False"
| "has_panicked (Panicked p s) = True"

section \<open>Command layer\<close>

text \<open>
  \<open>binary.LittleEndian.PutUint16(payload[1:], v)\<close> stores the low byte first.
\<close>

definition PutUint16 :: "16 word \<Rightarrow> byte list" where
  "PutUint16 v = [ucast v, ucast (drop_bit 8 v)]"

text \<open>
  \<open>payload := [9]byte{c}; copy(payload[1:], data)\<close>: the first byte is \<open>c\<close>, the other
  eight are the first eight bytes of \<open>data\<close>, and zero where \<open>data\<close> is shorter.
\<close>

definition payload9 :: "byte \<Rightarrow> byte list \<Rightarrow> byte list" where
  "payload9 c data = c # take 8 (data @ replicate 8 0)"

definition SetSearchWaveform :: "mesg_consts \<Rightarrow> byte \<Rightarrow> 16 word \<Rightarrow> Ant \<Rightarrow> outcome" where
  "SetSearchWaveform K channel searchWaveform dev =
     (if searchWaveform \<noteq> 316 \<and> searchWaveform \<noteq> 97 then Panicked SearchWaveformNotAllowed dev
      else Returned (dev\<lparr>write_chan := write_chan dev @
             [NewMessage (MESG_RADIO_TX_POWER_ID K) (channel # PutUint16 searchWaveform)]\<rparr>))"

definition SendBroadcastData :: "mesg_consts \<Rightarrow> byte \<Rightarrow> byte list \<Rightarrow> Ant \<Rightarrow> outcome" where
  "SendBroadcastData K channel data dev =
     (if length data \<noteq> 8 then Panicked (DataLengthNot8 (length data)) dev
      else Returned (dev\<lparr>write_chan := write_chan dev @
             [NewMessage (MESG_BROADCAST_DATA_ID K) (payload9 channel data)]\<rparr>))"

definition SendAcknowledgedData :: "mesg_consts \<Rightarrow> byte \<Rightarrow> byte list \<Rightarrow> Ant \<Rightarrow> outcome" where
  "SendAcknowledgedData K channel data dev =
     (if length data \<noteq> 8 then Panicked (DataLengthNot8 (length data)) dev
      else Returned (dev\<lparr>writeInTimeslot := writeInTimeslot dev @
             [NewMessage (MESG_ACKNOWLEDGED_DATA_ID K) (payload9 channel data)]\<rparr>))"

definition SendBurstTransferPacket :: "mesg_consts \<Rightarrow> byte \<Rightarrow> byte list \<Rightarrow> Ant \<Rightarrow> outcome" where
  "SendBurstTransferPacket K channelSeq data dev =
     (if length data \<noteq> 8 then Panicked (DataLengthNot8 (length data)) dev
      else Returned (dev\<lparr>writeInTimeslot := writeInTimeslot dev @
             [NewMessage (MESG_BURST_DATA_ID K) (payload9 channelSeq data)]\<rparr>))"

text \<open>
  The slice expression \<open>data[lo:hi]\<close>. Go panics unless \<open>lo \<le> hi \<le> cap(data)\<close>; the
  capacity of \<open>data\<close> is taken to be its length.
\<close>

definition slice :: "'a list \<Rightarrow> nat \<Rightarrow> nat \<Rightarrow> panic + 'a list" where
  "slice data lo hi =
     (if length data < hi then Inl (SliceBoundsOutOfRange hi (length data))
      else if hi < lo then Inl (SliceBoundsOutOfRange lo hi)
      else Inr (take (hi - lo) (drop lo data)))"

text \<open>
  The sequence number of packet \<open>i\<close> of \<open>packets\<close>, in \<open>uint8\<close> arithmetic as in the
  body of the loop of \<open>SendBurstTransfer\<close>.
\<close>

definition burst_sequence :: "byte \<Rightarrow> byte \<Rightarrow> byte" where
  "burst_sequence packets i =
     (let sequence = ((i - 1) mod 3) + 1
      in if i = 0 then 0
         else if i = packets - 1 then sequence OR 4
         else sequence)"

lemma burst_loop_step: "i < packets \<Longrightarrow> unat (i + 1) = Suc (unat i)" for i packets :: byte
proof -
  assume "i < packets"
  then have "unat i < unat packets" by (simp add: word_less_nat_alt)
  moreover have "unat packets < 2 ^ 8" using unsigned_less [of packets] by simp
  ultimately have "unat i + unat (1 :: byte) < 2 ^ LENGTH(8)" by simp
  then show ?thesis by (simp add: unat_add_lem [THEN iffD1])
qed

text \<open>
  The loop \<open>for i := uint8(0); i < packets; i++\<close>. The slice bounds \<open>i*8\<close> and
  \<open>i*8+8\<close> are computed in \<open>uint8\<close>, the type of \<open>i\<close>.
\<close>

function burst_loop :: "mesg_consts \<Rightarrow> byte \<Rightarrow> byte list \<Rightarrow> byte \<Rightarrow> byte \<Rightarrow> Ant \<Rightarrow> outcome" where
  "burst_loop K channel data packets i dev =
     (if i < packets then
        (let channelSeq = channel OR push_bit 5 (burst_sequence packets i)
         in case slice data (unat (i * 8)) (unat (i * 8 + 8)) of
              Inl p \<Rightarrow> Panicked p dev
            | Inr d \<Rightarrow>
               (case SendBurstTransferPacket K channelSeq d dev of
                  Panicked p dev' \<Rightarrow> Panicked p dev'
                | Returned dev' \<Rightarrow> burst_loop K channel data packets (i + 1) dev'))
      else Returned dev)"
  by pat_completeness auto
termination
  by (relation "measure (\<lambda>(K, channel, data, packets, i, dev). unat packets - unat i)")
     (auto simp: burst_loop_step word_less_nat_alt)

declare burst_loop.simps [simp del]

definition SendBurstTransfer :: "mesg_consts \<Rightarrow> byte \<Rightarrow> byte list \<Rightarrow> Ant \<Rightarrow> outcome" where
  "SendBurstTransfer K channel data dev =
     (if length data mod 8 \<noteq> 0 then Panicked DataLengthNotMultipleOf8 dev
      else burst_loop K channel data (of_nat (length data div 8)) 0 dev)"

text \<open>
  The Message that the loop sends for packet \<open>i\<close>: the channel-sequence byte, then the
  eight bytes \<open>data[8*i : 8*i+8]\<close>.
\<close>

definition burst_packet :: "mesg_consts \<Rightarrow> byte \<Rightarrow> byte list \<Rightarrow> byte \<Rightarrow> nat \<Rightarrow> Message" where
  "burst_packet K channel data packets i =
     NewMessage (MESG_BURST_DATA_ID K)
       ((channel OR push_bit 5 (burst_sequence packets (of_nat i))) # take 8 (drop (8 * i) data))"

definition channel_seq :: "Message \<Rightarrow> byte" where
  "channel_seq m = hd (mesg_payload m)"

text \<open>
  The sequence number as the spec words it, for packet \<open>i\<close> of \<open>N\<close>, on natural numbers:
  \<open>((i - 1) mod 3) + 1\<close> for \<open>i > 0\<close> and \<open>0\<close> for \<open>i = 0\<close>, with the terminal flag
  \<open>0b100\<close> ORed in when \<open>i = N - 1\<close>.
\<close>

definition spec_sequence :: "nat \<Rightarrow> nat \<Rightarrow> byte" where
  "spec_sequence N i =
     (let sequence = (if i = 0 then 0 else of_nat ((i - 1) mod 3 + 1))
      in if i = N - 1 then sequence OR 4 else sequence)"

section \<open>Frame decoder\<close>

text \<open>
  \<open>decodeLoop\<close> is run on the bytes that arrive on the channel \<open>decoder\<close> before the
  channel is closed, as a list; the end of the list is the closed channel (\<open>ok\<close> is false).
  The function \<open>Decode\<close> is declared outside \<open>ant.go\<close> and is a parameter; it gives
  \<open>None\<close> where the code's \<open>Decode\<close> returns an error. Whether a receiver waits on the
  channel \<open>read\<close> when the loop reaches its \<open>select\<close> is given by the list \<open>ready\<close>,
  one entry for each time the \<open>select\<close> is reached; once the list is used up no receiver
  waits.

  What the loop does is recorded as a list of events: a buffer passed to \<open>Decode\<close>, a
  Message sent on \<open>read\<close>, a Message dropped by the \<open>default\<close> branch.
\<close>

datatype decode_event = Decoded "byte list" | Published Message | Dropped Message

datatype decode_end = ChannelClosed | DecodePanic panic

type_synonym decode_run = "decode_event list \<times> decode_end"

definition emit :: "decode_event list \<Rightarrow> decode_run \<Rightarrow> decode_run" where
  "emit evs r = (evs @ fst r, snd r)"

text \<open>The assignment \<open>buf[i] = v\<close>, which panics when \<open>i\<close> is not below \<open>len(buf)\<close>.\<close>

definition store :: "byte list \<Rightarrow> nat \<Rightarrow> byte \<Rightarrow> panic + byte list" where
  "store buf i v =
     (if i < length buf then Inr (buf[i := v]) else Inl (IndexOutOfRange i (length buf)))"

text \<open>
  The loop \<open>for i := 2; i < int(length+4); i++\<close>, with \<open>n\<close> for the bound, which is also
  \<open>len(buf)\<close>: it gives the filled buffer and the rest of the channel, or \<open>None\<close> when
  the channel is closed first.
\<close>

fun fill_buf :: "nat \<Rightarrow> nat \<Rightarrow> byte list \<Rightarrow> byte list \<Rightarrow> (byte list \<times> byte list) option" where
  "fill_buf i n buf [] = (if i < n then None else Some (buf, []))"
| "fill_buf i n buf (v # chan) =
     (if i < n then fill_buf (Suc i) n (buf[i := v]) chan else Some (buf, v # chan))"

lemma fill_buf_length: "fill_buf i n buf chan = Some (buf', chan') \<Longrightarrow> length chan' \<le> length chan"
  by (induction i n buf chan rule: fill_buf.induct) (auto split: if_splits)

text \<open>
  The \<open>select\<close> at the end of an iteration: the Message is sent on \<open>read\<close> when a
  receiver waits, and dropped otherwise.
\<close>

definition publish :: "bool list \<Rightarrow> Message \<Rightarrow> decode_event" where
  "publish ready msg = (if ready \<noteq> [] \<and> hd ready then Published msg else Dropped msg)"

text \<open>
  The sum \<open>length+4\<close> is computed in \<open>uint8\<close>, the type of \<open>length\<close>, both for
  \<open>make\<close> and for the bound of the loop.
\<close>

function decodeLoop :: "mesg_consts \<Rightarrow> (byte list \<Rightarrow> Message option) \<Rightarrow> bool list \<Rightarrow> byte list \<Rightarrow> decode_run" where
  "decodeLoop K Decode ready [] = ([], ChannelClosed)"
| "decodeLoop K Decode ready (sync # chan) =
     (if sync \<noteq> MESG_TX_SYNC K then decodeLoop K Decode ready chan
      else case chan of
        [] \<Rightarrow> ([], ChannelClosed)
      | length' # chan1 \<Rightarrow>
         (case store (replicate (unat (length' + 4)) 0) 0 (MESG_TX_SYNC K) of
            Inl p \<Rightarrow> ([], DecodePanic p)
          | Inr buf0 \<Rightarrow>
             (case store buf0 1 length' of
                Inl p \<Rightarrow> ([], DecodePanic p)
              | Inr buf1 \<Rightarrow>
                 (case fill_buf 2 (unat (length' + 4)) buf1 chan1 of
                    None \<Rightarrow> ([], ChannelClosed)
                  | Some (buf, chan2) \<Rightarrow>
                     (case Decode buf of
                        None \<Rightarrow> emit [Decoded buf] (decodeLoop K Decode ready chan2)
                      | Some msg \<Rightarrow>
                          emit [Decoded buf, publish ready msg]
                            (decodeLoop K Decode (tl ready) chan2))))))"
  by pat_completeness auto
termination
  by (relation "measure (\<lambda>(K, Decode, ready, chan). length chan)")
     (auto dest: fill_buf_length)

declare decodeLoop.simps(2) [simp del]

text \<open>The Messages that reached the channel \<open>read\<close>, and the buffers passed to \<open>Decode\<close>.\<close>

fun published :: "decode_event list \<Rightarrow> Message list" where
  "published [] = []"
| "published (Published m # evs) = m # published evs"
| "published (e # evs) = published evs"

fun codec_calls :: "decode_event list \<Rightarrow> byte list list" where
  "codec_calls [] = []"
| "codec_calls (Decoded buf # evs) = buf # codec_calls evs"
| "codec_calls (e # evs) = codec_calls evs"

section \<open>I/O pump\<close>

text \<open>
  One iteration of the \<open>for { select { ... } }\<close> of \<open>loop\<close>, as a step relation
  on \<open>Ant\<close>, labelled with the branch taken. Go's \<open>select\<close> takes one of the cases
  whose communication can proceed, chosen at random when there are several, and the
  \<open>default\<close> case only when none can proceed. So the case \<open><-dev.stopper\<close> can be
  taken when a shutdown signal is offered, the case \<open>d := <-dev.write\<close> when a Message
  is offered on \<open>write\<close> (the oldest offer is received), and the \<open>default\<close> case when
  neither is. The method \<open>Encode\<close> of a Message is declared outside \<open>ant.go\<close> and is a
  parameter. \<open>driver.Write\<close> returns an error or not, and \<open>driver.Read\<close> returns
  bytes or an error, as the driver decides: both outcomes are steps. After a failed write
  the loop panics; after the \<open>return\<close> of the shutdown branch the deferred calls close
  the channels and the driver: in both cases the loop makes no further step.
\<close>

datatype branch =
    Shutdown
  | Outbound Message
  | OutboundFailed Message
  | Inbound "byte list"
  | InboundFailed

inductive loop_step :: "(Message \<Rightarrow> byte list) \<Rightarrow> Ant \<Rightarrow> branch \<Rightarrow> Ant \<Rightarrow> bool"
  for Encode :: "Message \<Rightarrow> byte list" where
  shutdown:
    "\<not> stopped dev \<Longrightarrow> stopper dev \<Longrightarrow>
     loop_step Encode dev Shutdown (dev\<lparr>stopper := False, stopped := True\<rparr>)"
| outbound:
    "\<not> stopped dev \<Longrightarrow> write_chan dev = d # ds \<Longrightarrow>
     loop_step Encode dev (Outbound d)
       (dev\<lparr>write_chan := ds, driver_written := driver_written dev @ [Encode d]\<rparr>)"
| outbound_failed:
    "\<not> stopped dev \<Longrightarrow> write_chan dev = d # ds \<Longrightarrow>
     loop_step Encode dev (OutboundFailed d) (dev\<lparr>write_chan := ds, stopped := True\<rparr>)"
| inbound:
    "\<not> stopped dev \<Longrightarrow> \<not> stopper dev \<Longrightarrow> write_chan dev = [] \<Longrightarrow>
     loop_step Encode dev (Inbound bs) (dev\<lparr>decoder := decoder dev @ bs\<rparr>)"
| inbound_failed:
    "\<not> stopped dev \<Longrightarrow> \<not> stopper dev \<Longrightarrow> write_chan dev = [] \<Longrightarrow>
     loop_step Encode dev InboundFailed dev"

text \<open>
  What happens around the loop: a command offers a Message on \<open>write\<close> or on
  \<open>writeInTimeslot\<close> (a send on a closed channel panics instead and offers nothing),
  and \<open>Stop\<close> offers the shutdown signal. A run is a sequence of such events and of
  iterations of the loop.
\<close>

datatype event = Pump branch | OfferWrite Message | OfferTimeslot Message | OfferStop

inductive ant_step :: "(Message \<Rightarrow> byte list) \<Rightarrow> Ant \<Rightarrow> event \<Rightarrow> Ant \<Rightarrow> bool"
  for Encode :: "Message \<Rightarrow> byte list" where
  pump: "loop_step Encode dev b dev' \<Longrightarrow> ant_step Encode dev (Pump b) dev'"
| offer_write:
    "\<not> stopped dev \<Longrightarrow>
     ant_step Encode dev (OfferWrite m) (dev\<lparr>write_chan := write_chan dev @ [m]\<rparr>)"
| offer_timeslot:
    "\<not> stopped dev \<Longrightarrow>
     ant_step Encode dev (OfferTimeslot m) (dev\<lparr>writeInTimeslot := writeInTimeslot dev @ [m]\<rparr>)"
| offer_stop:
    "ant_step Encode dev OfferStop (dev\<lparr>stopper := True\<rparr>)"

inductive ant_run :: "(Message \<Rightarrow> byte list) \<Rightarrow> Ant \<Rightarrow> event list \<Rightarrow> Ant \<Rightarrow> bool"
  for Encode :: "Message \<Rightarrow> byte list" where
  run_nil: "ant_run Encode dev [] dev"
| run_cons: "ant_step Encode dev e dev1 \<Longrightarrow> ant_run Encode dev1 es dev' \<Longrightarrow>
     ant_run Encode dev (e # es) dev'"

text \<open>
  Read off a run: the Messages offered on each of the two outbound channels, the Messages
  the loop received from \<open>write\<close>, and those it passed to \<open>driver.Write\<close> without
  error.
\<close>

fun timeslot_offers :: "event list \<Rightarrow> Message list" where
  "timeslot_offers [] = []"
| "timeslot_offers (OfferTimeslot m # es) = m # timeslot_offers es"
| "timeslot_offers (e # es) = timeslot_offers es"

fun write_offers :: "event list \<Rightarrow> Message list" where
  "write_offers [] = []"
| "write_offers (OfferWrite m # es) = m # write_offers es"
| "write_offers (e # es) = write_offers es"

fun received :: "event list \<Rightarrow> Message list" where
  "received [] = []"
| "received (Pump (Outbound d) # es) = d # received es"
| "received (Pump (OutboundFailed d) # es) = d # received es"
| "received (e # es) = received es"

fun transport_writes :: "event list \<Rightarrow> Message list" where
  "transport_writes [] = []"
| "transport_writes (Pump (Outbound d) # es) = d # transport_writes es"
| "transport_writes (e # es) = transport_writes es"


section \<open>Values to evaluate the model at\<close>

text \<open>
  The theorems below hold for all values of the constants and for every \<open>Decode\<close>. Where a
  statement is evaluated at a concrete input, it takes these: the constants as the ANT
  serial protocol numbers them, and a codec that accepts a buffer
  \<open>[sync, length, id, payload, checksum]\<close> whose length byte counts the payload and whose
  bytes XOR to zero.
\<close>

definition sample_consts :: mesg_consts where
  "sample_consts = \<lparr>MESG_TX_SYNC = 0xA4, MESG_RADIO_TX_POWER_ID = 0x47,
     MESG_BROADCAST_DATA_ID = 0x4E, MESG_ACKNOWLEDGED_DATA_ID = 0x4F, MESG_BURST_DATA_ID = 0x50\<rparr>"

definition sample_Decode :: "byte list \<Rightarrow> Message option" where
  "sample_Decode buf =
     (if 4 \<le> length buf \<and> unat (buf ! 1) + 4 = length buf \<and> foldr (XOR) buf 0 = 0
      then Some (NewMessage (buf ! 2) (take (length buf - 4) (drop 3 buf)))
      else None)"

text \<open>
  A sample \<open>Encode\<close>: SYNC, the length of the payload, the message-id, the payload, and
  the XOR of all these bytes.
\<close>

definition sample_Encode :: "Message \<Rightarrow> byte list" where
  "sample_Encode m =
     (let body = [0xA4, of_nat (length (mesg_payload m)), mesg_id m] @ mesg_payload m
      in body @ [foldr (XOR) body 0])"

definition idle :: Ant where
  "idle = \<lparr>write_chan = [], writeInTimeslot = [], stopper = False, decoder = [],
     driver_written = [], stopped = False\<rparr>"

section \<open>Properties of the burst transfer\<close>

subsection \<open>One iteration, and runs of iterations\<close>

lemma payload9_exact: "length d = 8 \<Longrightarrow> payload9 c d = c # d"
  by (simp add: payload9_def)

lemma unat_index: "i \<le> 31 \<Longrightarrow> unat (of_nat i * 8 :: byte) = 8 * i"
  by (simp add: unat_word_ariths unat_of_nat)

lemma unat_index8: "i \<le> 30 \<Longrightarrow> unat (of_nat i * 8 + 8 :: byte) = 8 * i + 8"
  by (simp add: unat_word_ariths unat_of_nat)

lemma of_nat_less_packets: "i < unat packets \<Longrightarrow> (of_nat i :: byte) < packets"
proof -
  assume a: "i < unat packets"
  have "unat packets < 2 ^ 8" using unsigned_less [of packets] by simp
  with a have "i mod 2 ^ 8 = i" by simp
  with a show ?thesis by (simp add: word_less_nat_alt unat_of_nat)
qed

lemma SendBurstTransferPacket_ok:
  "length d = 8 \<Longrightarrow> SendBurstTransferPacket K c d dev =
     Returned (dev\<lparr>writeInTimeslot := writeInTimeslot dev @ [NewMessage (MESG_BURST_DATA_ID K) (c # d)]\<rparr>)"
  by (simp add: SendBurstTransferPacket_def payload9_exact)

lemma SendBurstTransferPacket_cases:
  "SendBurstTransferPacket K c d dev = Panicked p dev' \<Longrightarrow> dev' = dev"
  "SendBurstTransferPacket K c d dev = Returned dev' \<Longrightarrow>
     length (writeInTimeslot dev') = Suc (length (writeInTimeslot dev))"
  by (auto simp: SendBurstTransferPacket_def split: if_splits)

text \<open>
  Below packet 31 the bounds \<open>i*8\<close> and \<open>i*8+8\<close> do not wrap, and an iteration sends
  its packet.
\<close>

lemma burst_loop_send:
  assumes "i < unat packets" and "i \<le> 30" and "8 * i + 8 \<le> length data"
  shows "burst_loop K channel data packets (of_nat i) dev =
         burst_loop K channel data packets (of_nat (Suc i))
           (dev\<lparr>writeInTimeslot := writeInTimeslot dev @ [burst_packet K channel data packets i]\<rparr>)"
proof -
  define d where "d = take 8 (drop (8 * i) data)"
  have lt: "(of_nat i :: byte) < packets" using assms(1) by (rule of_nat_less_packets)
  have sl: "slice data (unat (of_nat i * 8 :: byte)) (unat (of_nat i * 8 + 8 :: byte)) = Inr d"
    using assms(2,3) by (simp add: unat_index unat_index8 slice_def d_def)
  have len: "length d = 8" using assms(3) by (simp add: d_def)
  have suc: "(of_nat (Suc i) :: byte) = of_nat i + 1" by simp
  have bp: "burst_packet K channel data packets i =
      NewMessage (MESG_BURST_DATA_ID K)
        ((channel OR push_bit 5 (burst_sequence packets (of_nat i))) # d)"
    by (simp add: burst_packet_def d_def)
  show ?thesis
    by (subst burst_loop.simps [of K channel data packets "of_nat i" dev])
       (simp only: lt sl SendBurstTransferPacket_ok [OF len] bp suc
          if_True Let_def sum.case outcome.case)
qed

lemma burst_loop_run:
  assumes "i \<le> m" and "m \<le> 31" and "m \<le> unat packets" and "8 * m \<le> length data"
  shows "burst_loop K channel data packets (of_nat i) dev =
         burst_loop K channel data packets (of_nat m)
           (dev\<lparr>writeInTimeslot := writeInTimeslot dev @
                   map (burst_packet K channel data packets) [i..<m]\<rparr>)"
  using assms
proof (induction m rule: dec_induct)
  case base
  then show ?case by simp
next
  case (step n)
  then have "burst_loop K channel data packets (of_nat n)
      (dev\<lparr>writeInTimeslot := writeInTimeslot dev @
              map (burst_packet K channel data packets) [i..<n]\<rparr>) =
    burst_loop K channel data packets (of_nat (Suc n))
      (dev\<lparr>writeInTimeslot := writeInTimeslot dev @
              map (burst_packet K channel data packets) [i..<Suc n]\<rparr>)"
    by (subst burst_loop_send) auto
  with step show ?case by simp
qed

lemma burst_loop_done: "burst_loop K channel data packets packets dev = Returned dev"
  by (subst burst_loop.simps) simp

lemma burst_loop_all:
  assumes "unat packets \<le> 31" and "8 * unat packets \<le> length data"
  shows "burst_loop K channel data packets 0 dev =
         Returned (dev\<lparr>writeInTimeslot := writeInTimeslot dev @
                   map (burst_packet K channel data packets) [0..<unat packets]\<rparr>)"
  using burst_loop_run [of 0 "unat packets" packets data K channel dev] assms
  by (simp add: burst_loop_done)

text \<open>
  At packet 31 the upper bound \<open>31*8+8\<close> wraps to 0 and the slice expression
  \<open>data[248:0]\<close> panics.
\<close>

lemma burst_loop_overflow:
  assumes "32 \<le> unat packets" and "248 \<le> length data"
  shows "burst_loop K channel data packets 0 dev =
         Panicked (SliceBoundsOutOfRange 248 0)
           (dev\<lparr>writeInTimeslot := writeInTimeslot dev @
                   map (burst_packet K channel data packets) [0..<31]\<rparr>)"
proof -
  have lt: "(31 :: byte) < packets" using assms(1) by (simp add: word_less_nat_alt)
  have "burst_loop K channel data packets 0 dev =
      burst_loop K channel data packets (of_nat 31)
        (dev\<lparr>writeInTimeslot := writeInTimeslot dev @
                map (burst_packet K channel data packets) [0..<31]\<rparr>)"
    using burst_loop_run [of 0 31 packets data K channel dev] assms by simp
  also have "\<dots> = Panicked (SliceBoundsOutOfRange 248 0)
        (dev\<lparr>writeInTimeslot := writeInTimeslot dev @
                map (burst_packet K channel data packets) [0..<31]\<rparr>)"
    using assms(2) by (subst burst_loop.simps) (simp add: lt slice_def)
  finally show ?thesis .
qed

text \<open>The loop never sends more packets than \<open>packets - i\<close>.\<close>

lemma burst_loop_bound:
  "length (writeInTimeslot (chans_of (burst_loop K channel data packets i dev)))
     \<le> length (writeInTimeslot dev) + (unat packets - unat i)"
proof (induction K channel data packets i dev rule: burst_loop.induct)
  case (1 K channel data packets i dev)
  show ?case
  proof (cases "i < packets")
    case False
    then show ?thesis by (subst burst_loop.simps) simp
  next
    case True
    then have u: "unat (i + 1) = Suc (unat i)" by (rule burst_loop_step)
    from True have v: "unat i < unat packets" by (simp add: word_less_nat_alt)
    show ?thesis
    proof (cases "slice data (unat (i * 8)) (unat (i * 8 + 8))")
      case (Inl p)
      with True show ?thesis by (subst burst_loop.simps) simp
    next
      case (Inr d)
      show ?thesis
      proof (cases "SendBurstTransferPacket K (channel OR push_bit 5 (burst_sequence packets i)) d dev")
        case (Panicked p dev')
        with True Inr show ?thesis
          by (subst burst_loop.simps) (simp add: SendBurstTransferPacket_cases(1) [OF Panicked])
      next
        case (Returned dev')
        from 1 [OF True refl Inr Returned] u v SendBurstTransferPacket_cases(2) [OF Returned]
        have "length (writeInTimeslot (chans_of (burst_loop K channel data packets (i + 1) dev')))
                \<le> length (writeInTimeslot dev) + (unat packets - unat i)" by simp
        with True Inr Returned show ?thesis by (subst burst_loop.simps) simp
      qed
    qed
  qed
qed

subsection \<open>The sequence number of the code and of the spec\<close>

lemma word_pred: "0 < i \<Longrightarrow> (of_nat i - 1 :: byte) = of_nat (i - 1)"
  by (cases i) simp_all

lemma word_mod3: "j < 256 \<Longrightarrow> (of_nat j mod 3 :: byte) = of_nat (j mod 3)"
proof -
  assume "j < 256"
  then have "unat (of_nat j mod 3 :: byte) = unat (of_nat (j mod 3) :: byte)"
    by (simp add: unat_mod unat_of_nat)
  then show ?thesis by (rule word_unat_eq_iff [THEN iffD2])
qed

lemma of_nat_byte_eq: "i < 256 \<Longrightarrow> j < 256 \<Longrightarrow> (of_nat i :: byte) = of_nat j \<longleftrightarrow> i = j"
  by (simp add: word_unat_eq_iff unat_of_nat)

text \<open>
  From two packets on, and as long as the packet count fits \<open>uint8\<close>, the code computes
  the sequence number of the spec.
\<close>

lemma burst_sequence_spec:
  assumes "2 \<le> N" and "N \<le> 255" and "i < N"
  shows "burst_sequence (of_nat N) (of_nat i) = spec_sequence N i"
proof (cases "i = 0")
  case True
  have "(0 :: byte) \<noteq> of_nat N - 1"
  proof -
    have "0 < N" using assms(1) by simp
    then have a: "(of_nat N - 1 :: byte) = of_nat (N - 1)" by (rule word_pred)
    have b: "0 < (256 :: nat)" "N - 1 < 256" using assms by simp_all
    from of_nat_byte_eq [OF b] assms(1) show ?thesis unfolding a by simp
  qed
  with True assms(1) show ?thesis by (simp add: burst_sequence_def spec_sequence_def)
next
  case False
  then have pos: "0 < i" by simp
  have small: "i < 256" "N - 1 < 256" "i - 1 < 256" using assms by simp_all
  have nz: "(of_nat i :: byte) \<noteq> 0"
  proof -
    from small(1) have "unat (of_nat i :: byte) = i" by (simp add: unat_of_nat)
    with pos show ?thesis by auto
  qed
  have last: "(of_nat i :: byte) = of_nat N - 1 \<longleftrightarrow> i = N - 1"
  proof -
    have "0 < N" using assms(1) by simp
    then have a: "(of_nat N - 1 :: byte) = of_nat (N - 1)" by (rule word_pred)
    show ?thesis unfolding a by (rule of_nat_byte_eq [OF small(1,2)])
  qed
  have seq: "((of_nat i - 1) mod 3 + 1 :: byte) = of_nat ((i - 1) mod 3 + 1)"
  proof -
    from small(3) have "(of_nat (i - 1) mod 3 :: byte) = of_nat ((i - 1) mod 3)"
      by (rule word_mod3)
    then show ?thesis unfolding word_pred [OF pos] by simp
  qed
  show ?thesis
    using False by (simp only: burst_sequence_def spec_sequence_def Let_def nz last seq if_False)
qed

lemma unat_packets: "N \<le> 255 \<Longrightarrow> unat (of_nat N :: byte) = N"
  by (simp add: unat_of_nat)

lemma SendBurstTransfer_overflow_helper:
  assumes "length data = 8 * N" and "32 \<le> N" and "N \<le> 255"
  shows "SendBurstTransfer K channel data dev =
         Panicked (SliceBoundsOutOfRange 248 0)
           (dev\<lparr>writeInTimeslot := writeInTimeslot dev @
                   map (burst_packet K channel data (of_nat N)) [0..<31]\<rparr>)"
proof -
  have u: "unat (of_nat N :: byte) = N" using assms(3) by (simp add: unat_packets)
  show ?thesis
    using burst_loop_overflow [of "of_nat N" data K channel dev] assms
    by (simp add: SendBurstTransfer_def u)
qed

subsection \<open>Claims on the burst transfer\<close>

text \<open>
  Claim C3, as far as the code keeps it. For a payload of \<open>8 * N\<close> bytes with
  \<open>2 \<le> N \<le> 31\<close>, \<open>SendBurstTransfer\<close> returns after it has sent, in increasing
  order of \<open>i\<close>, one Message for each packet \<open>i < N\<close> on the timeslot channel, whose
  first payload byte is \<open>channel | (sequence << 5)\<close> with the sequence number of the spec
  (0 for the first packet, \<open>((i - 1) mod 3) + 1\<close> after it, the flag \<open>0b100\<close> ORed in
  for the last one) and whose other bytes are \<open>data[8*i : 8*i+8]\<close>. The witness is the
  example of the spec: channel 2 and 64 bytes give the channel-sequence bytes
  \<open>2, 2|(1<<5), 2|(2<<5), 2|(3<<5), 2|(1<<5), 2|(2<<5), 2|(3<<5), 2|((1|0b100)<<5)\<close>.
\<close>

theorem SendBurstTransfer_sequencing:
  assumes "length data = 8 * N" and "2 \<le> N" and "N \<le> 31"
  shows "SendBurstTransfer K channel data dev =
         Returned (dev\<lparr>writeInTimeslot := writeInTimeslot dev @
           map (\<lambda>i. NewMessage (MESG_BURST_DATA_ID K)
                  ((channel OR push_bit 5 (spec_sequence N i)) # take 8 (drop (8 * i) data)))
               [0..<N]\<rparr>)"
proof -
  have u: "unat (of_nat N :: byte) = N" using assms(3) by (simp add: unat_packets)
  have "map (burst_packet K channel data (of_nat N)) [0..<N] =
        map (\<lambda>i. NewMessage (MESG_BURST_DATA_ID K)
                  ((channel OR push_bit 5 (spec_sequence N i)) # take 8 (drop (8 * i) data)))
            [0..<N]"
    using assms(2,3) by (intro map_cong refl) (simp add: burst_packet_def burst_sequence_spec)
  moreover have "burst_loop K channel data (of_nat N) 0 dev =
      Returned (dev\<lparr>writeInTimeslot := writeInTimeslot dev @
                 map (burst_packet K channel data (of_nat N)) [0..<N]\<rparr>)"
    using burst_loop_all [of "of_nat N" data K channel dev] assms(1,3) by (simp add: u)
  ultimately show ?thesis using assms(1) by (simp add: SendBurstTransfer_def)
qed

theorem SendBurstTransfer_sequencing_witness:
  "length (replicate 64 (7 :: byte)) = 8 * 8 \<and> (2 :: nat) \<le> 8 \<and> (8 :: nat) \<le> 31 \<and>
   map channel_seq (writeInTimeslot (chans_of
     (SendBurstTransfer sample_consts 2 (replicate 64 7) idle))) =
   [2, 2 OR push_bit 5 1, 2 OR push_bit 5 2, 2 OR push_bit 5 3,
    2 OR push_bit 5 1, 2 OR push_bit 5 2, 2 OR push_bit 5 3, 2 OR push_bit 5 (1 OR 4)]"
  using SendBurstTransfer_sequencing [of "replicate 64 7" 8 sample_consts 2 idle]
  by (simp add: idle_def channel_seq_def spec_sequence_def upt_rec [of _ 8] upt_rec [of _ "Suc _"] comp_def)

text \<open>
  Claim C3, where the code breaks it. For a payload of \<open>8 * N\<close> bytes with
  \<open>32 \<le> N \<le> 255\<close> the claim wants \<open>N\<close> packets sent. The code sends the packets
  0 to 30 and then panics: for \<open>i = 31\<close> the bounds \<open>i*8 = 248\<close> and
  \<open>i*8+8 = 0\<close> are computed in \<open>uint8\<close>, and \<open>data[248:0]\<close> is out of range.
  Packet 31 and the packets after it, the last one with its terminal flag among them, are
  never sent.
\<close>

theorem SendBurstTransfer_slice_overflow:
  assumes "length data = 8 * N" and "32 \<le> N" and "N \<le> 255"
  shows "SendBurstTransfer K channel data dev =
         Panicked (SliceBoundsOutOfRange 248 0)
           (dev\<lparr>writeInTimeslot := writeInTimeslot dev @
                   map (burst_packet K channel data (of_nat N)) [0..<31]\<rparr>)"
  using assms by (rule SendBurstTransfer_overflow_helper)

theorem SendBurstTransfer_slice_overflow_witness:
  "length (replicate 256 (0 :: byte)) = 8 * 32 \<and> (32 :: nat) \<le> 32 \<and> (32 :: nat) \<le> 255 \<and>
   has_panicked (SendBurstTransfer sample_consts 2 (replicate 256 0) idle) \<and>
   length (writeInTimeslot (chans_of (SendBurstTransfer sample_consts 2 (replicate 256 0) idle))) = 31"
  using SendBurstTransfer_slice_overflow [of "replicate 256 0" 32 sample_consts 2 idle]
  by (simp add: idle_def)

text \<open>
  Claim C4 wants the only packet of an 8-byte transfer to carry the channel-sequence byte
  \<open>channel | (0b100 << 5)\<close>. The code sends it with the byte \<open>channel\<close>: for
  \<open>i = 0\<close> the branch \<open>sequence = 0\<close> is taken and the \<open>else if\<close> that sets
  the terminal flag is skipped. For channel 2 the byte sent is 2 and not \<open>2 | (4 << 5)\<close>.
\<close>

theorem SendBurstTransfer_single_packet:
  assumes "length data = 8"
  shows "SendBurstTransfer K channel data dev =
         Returned (dev\<lparr>writeInTimeslot := writeInTimeslot dev @
                    [NewMessage (MESG_BURST_DATA_ID K) (channel # data)]\<rparr>)"
proof -
  have "burst_loop K channel data 1 0 dev =
      Returned (dev\<lparr>writeInTimeslot := writeInTimeslot dev @
                 map (burst_packet K channel data 1) [0..<1]\<rparr>)"
    using burst_loop_all [of 1 data K channel dev] assms by simp
  then show ?thesis
    using assms by (simp add: SendBurstTransfer_def burst_packet_def burst_sequence_def)
qed

theorem SendBurstTransfer_single_packet_witness:
  "length [1, 2, 3, 4, 5, 6, 7, 8 :: byte] = 8 \<and>
   map channel_seq (writeInTimeslot (chans_of
     (SendBurstTransfer sample_consts 2 [1, 2, 3, 4, 5, 6, 7, 8] idle))) = [2] \<and>
   (2 :: byte) \<noteq> 2 OR push_bit 5 4"
  using SendBurstTransfer_single_packet [of "[1, 2, 3, 4, 5, 6, 7, 8]" sample_consts 2 idle]
  by (simp add: idle_def channel_seq_def)

text \<open>
  Claim C10, as far as the code keeps it. \<open>SendBurstTransfer\<close> truncates the packet
  count to 8 bits: for a payload of \<open>8 * k\<close> bytes the loop runs against
  \<open>k mod 256\<close>. When \<open>k mod 256 \<le> 31\<close> it sends exactly \<open>k mod 256\<close> packets and
  returns, and it never sends more than \<open>k mod 256\<close>. So every payload of 2048 bytes or
  more whose length is a multiple of 8 passes the length check and yet sends fewer packets
  than \<open>len(data)/8\<close>; a payload of 2048 bytes sends none.
\<close>

theorem SendBurstTransfer_packet_count:
  assumes "length data = 8 * k"
  shows "(k mod 256 \<le> 31 \<longrightarrow>
            SendBurstTransfer K channel data dev =
              Returned (dev\<lparr>writeInTimeslot := writeInTimeslot dev @
                map (burst_packet K channel data (of_nat k)) [0..<k mod 256]\<rparr>)) \<and>
         length (writeInTimeslot (chans_of (SendBurstTransfer K channel data dev)))
           \<le> length (writeInTimeslot dev) + k mod 256 \<and>
         (256 \<le> k \<longrightarrow>
            length (writeInTimeslot (chans_of (SendBurstTransfer K channel data dev)))
              < length (writeInTimeslot dev) + k) \<and>
         (k = 256 \<longrightarrow> SendBurstTransfer K channel data dev = Returned dev)"
proof -
  have u: "unat (of_nat k :: byte) = k mod 256" by (simp add: unat_of_nat)
  have run: "SendBurstTransfer K channel data dev = burst_loop K channel data (of_nat k) 0 dev"
    using assms by (simp add: SendBurstTransfer_def)
  have le: "8 * (k mod 256) \<le> length data" using assms by simp
  have a: "k mod 256 \<le> 31 \<Longrightarrow> SendBurstTransfer K channel data dev =
      Returned (dev\<lparr>writeInTimeslot := writeInTimeslot dev @
        map (burst_packet K channel data (of_nat k)) [0..<k mod 256]\<rparr>)"
    using burst_loop_all [of "of_nat k" data K channel dev] le by (simp add: run u)
  have b: "length (writeInTimeslot (chans_of (SendBurstTransfer K channel data dev)))
           \<le> length (writeInTimeslot dev) + k mod 256"
    using burst_loop_bound [of K channel data "of_nat k" 0 dev] by (simp add: run u)
  have c: "256 \<le> k \<Longrightarrow> length (writeInTimeslot (chans_of (SendBurstTransfer K channel data dev)))
              < length (writeInTimeslot dev) + k"
  proof -
    assume "256 \<le> k"
    then have "k mod 256 < k" by (simp add: less_le_trans [OF mod_less_divisor])
    with b show ?thesis by simp
  qed
  have d: "k = 256 \<Longrightarrow> SendBurstTransfer K channel data dev = Returned dev"
  proof -
    assume "k = 256"
    with u have "(of_nat k :: byte) = 0" by (simp add: word_unat_eq_iff)
    then show ?thesis by (simp add: run burst_loop_done)
  qed
  from a b c d show ?thesis by blast
qed

theorem SendBurstTransfer_packet_count_witness:
  "length (replicate 2048 (0 :: byte)) = 8 * 256 \<and>
   SendBurstTransfer sample_consts 2 (replicate 2048 0) idle = Returned idle \<and>
   length (writeInTimeslot (chans_of (SendBurstTransfer sample_consts 2 (replicate 2048 0) idle)))
     < length (writeInTimeslot idle) + 256"
  using SendBurstTransfer_packet_count [of "replicate 2048 0" 256 sample_consts 2 idle]
  by simp

text \<open>
  Claim C10, where the code breaks it. The claim wants \<open>k mod 256\<close> packets sent for
  every payload of \<open>8 * k\<close> bytes. When \<open>k mod 256\<close> is 32 or more, the code sends
  the packets 0 to 30 and then panics on \<open>data[248:0]\<close>, the bounds \<open>i*8\<close> and
  \<open>i*8+8\<close> being computed in \<open>uint8\<close>: it has sent 31 packets, fewer than
  \<open>k mod 256\<close>. A payload of 256 bytes sends 31 packets and not 32.
\<close>

theorem SendBurstTransfer_packet_count_overflow:
  assumes "length data = 8 * k" and "32 \<le> k mod 256"
  shows "SendBurstTransfer K channel data dev =
           Panicked (SliceBoundsOutOfRange 248 0)
             (dev\<lparr>writeInTimeslot := writeInTimeslot dev @
                     map (burst_packet K channel data (of_nat k)) [0..<31]\<rparr>) \<and>
         length (writeInTimeslot (chans_of (SendBurstTransfer K channel data dev))) =
           length (writeInTimeslot dev) + 31 \<and>
         length (writeInTimeslot dev) + 31 < length (writeInTimeslot dev) + k mod 256"
proof -
  have u: "unat (of_nat k :: byte) = k mod 256" by (simp add: unat_of_nat)
  have "k mod 256 \<le> k" by simp
  with assms have len: "248 \<le> length data" by simp
  have run: "SendBurstTransfer K channel data dev = burst_loop K channel data (of_nat k) 0 dev"
    using assms(1) by (simp add: SendBurstTransfer_def)
  have "burst_loop K channel data (of_nat k) 0 dev =
      Panicked (SliceBoundsOutOfRange 248 0)
        (dev\<lparr>writeInTimeslot := writeInTimeslot dev @
                map (burst_packet K channel data (of_nat k)) [0..<31]\<rparr>)"
    using assms(2) len by (intro burst_loop_overflow) (simp_all add: u)
  with run assms(2) show ?thesis by simp
qed

theorem SendBurstTransfer_packet_count_overflow_witness:
  "length (replicate 256 (0 :: byte)) = 8 * 32 \<and> (32 :: nat) \<le> 32 mod 256 \<and>
   has_panicked (SendBurstTransfer sample_consts 2 (replicate 256 0) idle) \<and>
   length (writeInTimeslot (chans_of (SendBurstTransfer sample_consts 2 (replicate 256 0) idle)))
     = 31 \<and>
   (31 :: nat) \<noteq> 32 mod 256"
  using SendBurstTransfer_packet_count_overflow [of "replicate 256 0" 32 sample_consts 2 idle]
  by (simp add: idle_def)

section \<open>Properties of the argument checks\<close>

text \<open>
  Claim C5. \<open>SendBroadcastData\<close>, \<open>SendAcknowledgedData\<close> and
  \<open>SendBurstTransferPacket\<close> called with \<open>len(data) \<noteq> 8\<close>, and
  \<open>SetSearchWaveform\<close> called with a waveform other than 97 and 316, signal the invalid
  argument (the code panics) before anything is sent: both outbound channels are as they
  were before the call.
\<close>

theorem invalid_argument_enqueues_nothing:
  "(length data \<noteq> 8 \<longrightarrow>
      SendBroadcastData K channel data dev = Panicked (DataLengthNot8 (length data)) dev \<and>
      SendAcknowledgedData K channel data dev = Panicked (DataLengthNot8 (length data)) dev \<and>
      SendBurstTransferPacket K channel data dev = Panicked (DataLengthNot8 (length data)) dev) \<and>
   (searchWaveform \<noteq> 97 \<and> searchWaveform \<noteq> 316 \<longrightarrow>
      SetSearchWaveform K channel searchWaveform dev = Panicked SearchWaveformNotAllowed dev)"
  by (simp add: SendBroadcastData_def SendAcknowledgedData_def SendBurstTransferPacket_def
        SetSearchWaveform_def)

theorem invalid_argument_enqueues_nothing_witness:
  "length [1, 2, 3 :: byte] \<noteq> 8 \<and> (100 :: 16 word) \<noteq> 97 \<and> (100 :: 16 word) \<noteq> 316 \<and>
   SendBroadcastData sample_consts 0 [1, 2, 3] idle = Panicked (DataLengthNot8 3) idle \<and>
   SendAcknowledgedData sample_consts 0 [1, 2, 3] idle = Panicked (DataLengthNot8 3) idle \<and>
   SendBurstTransferPacket sample_consts 0 [1, 2, 3] idle = Panicked (DataLengthNot8 3) idle \<and>
   SetSearchWaveform sample_consts 0 100 idle = Panicked SearchWaveformNotAllowed idle"
  using invalid_argument_enqueues_nothing [of "[1, 2, 3]" sample_consts 0 idle 100]
  by simp

section \<open>Properties of the frame decoder\<close>

subsection \<open>Assembling one frame\<close>

lemma fill_buf_exact:
  "length body = n - i \<Longrightarrow> i \<le> n \<Longrightarrow> length buf = n \<Longrightarrow>
   fill_buf i n buf (body @ rest) = Some (take i buf @ body, rest)"
proof (induction body arbitrary: i buf)
  case Nil
  then show ?case by (cases rest) simp_all
next
  case (Cons v body)
  then have lt: "i < n" by simp
  have "take (Suc i) (buf[i := v]) = take i buf @ [v]"
    using lt Cons.prems(3) by (simp add: take_Suc_conv_app_nth)
  moreover have "fill_buf (Suc i) n (buf[i := v]) (body @ rest) =
      Some (take (Suc i) (buf[i := v]) @ body, rest)"
    using Cons.prems lt by (intro Cons.IH) simp_all
  ultimately show ?case using lt by simp
qed

lemma fill_buf_short:
  "length chan < n - i \<Longrightarrow> fill_buf i n buf chan = None"
  by (induction chan arbitrary: i buf) simp_all

lemma fill_buf_full: "n \<le> i \<Longrightarrow> fill_buf i n buf chan = Some (buf, chan)"
  by (cases chan) simp_all

lemma unat_length4: "unat L \<le> 251 \<Longrightarrow> unat (L + 4) = unat L + 4" for L :: byte
proof -
  assume "unat L \<le> 251"
  then have "unat L + unat (4 :: byte) < 2 ^ LENGTH(8)" by simp
  then show ?thesis by (simp add: unat_add_lem [THEN iffD1])
qed

text \<open>
  A frame with a length byte of at most 251: the loop collects \<open>SYNC\<close>, the length
  byte and the \<open>length + 2\<close> bytes after it, passes them to \<open>Decode\<close>, and goes on
  with the rest of the channel.
\<close>

lemma decodeLoop_frame:
  assumes "unat L \<le> 251" and "length body = unat L + 2"
  shows "decodeLoop K Decode ready (MESG_TX_SYNC K # L # body @ rest) =
         (case Decode (MESG_TX_SYNC K # L # body) of
            None \<Rightarrow> emit [Decoded (MESG_TX_SYNC K # L # body)] (decodeLoop K Decode ready rest)
          | Some msg \<Rightarrow>
              emit [Decoded (MESG_TX_SYNC K # L # body), publish ready msg]
                (decodeLoop K Decode (tl ready) rest))"
proof -
  define n where "n = unat L + 4"
  define buf1 where "buf1 = (replicate n (0 :: byte))[0 := MESG_TX_SYNC K, 1 := L]"
  have n: "unat (L + 4) = n" using assms(1) by (simp add: unat_length4 n_def)
  have s0: "store (replicate n 0) 0 (MESG_TX_SYNC K) = Inr ((replicate n 0)[0 := MESG_TX_SYNC K])"
    by (simp add: store_def n_def)
  have s1: "store ((replicate n 0)[0 := MESG_TX_SYNC K]) 1 L = Inr buf1"
    by (simp add: store_def n_def buf1_def)
  have t2: "take 2 buf1 = [MESG_TX_SYNC K, L]"
    by (simp add: buf1_def n_def numeral_2_eq_2 take_Suc_conv_app_nth)
  have "fill_buf 2 n buf1 (body @ rest) = Some (take 2 buf1 @ body, rest)"
    using assms(2) by (intro fill_buf_exact) (simp_all add: n_def buf1_def)
  then have fb: "fill_buf 2 n buf1 (body @ rest) = Some (MESG_TX_SYNC K # L # body, rest)"
    by (simp add: t2)
  show ?thesis
    by (simp only: decodeLoop.simps n s0 s1 fb list.case sum.case option.case prod.case
          simp_thms if_False)
qed

text \<open>
  The channel closed before the frame is complete: the loop returns, and nothing has been
  passed to \<open>Decode\<close>.
\<close>

lemma decodeLoop_partial:
  assumes "unat L \<le> 251" and "length part < unat L + 2"
  shows "decodeLoop K Decode ready (MESG_TX_SYNC K # L # part) = ([], ChannelClosed)"
proof -
  define n where "n = unat L + 4"
  have n: "unat (L + 4) = n" using assms(1) by (simp add: unat_length4 n_def)
  define buf1 where "buf1 = (replicate n (0 :: byte))[0 := MESG_TX_SYNC K, 1 := L]"
  have s0: "store (replicate n 0) 0 (MESG_TX_SYNC K) = Inr ((replicate n 0)[0 := MESG_TX_SYNC K])"
    by (simp add: store_def n_def)
  have s1: "store ((replicate n 0)[0 := MESG_TX_SYNC K]) 1 L = Inr buf1"
    by (simp add: store_def n_def buf1_def)
  have fb: "fill_buf 2 n buf1 part = None"
    using assms(2) by (intro fill_buf_short) (simp add: n_def)
  show ?thesis
    by (simp only: decodeLoop.simps n s0 s1 fb list.case sum.case option.case prod.case
          simp_thms if_False)
qed

lemma decodeLoop_no_sync:
  "MESG_TX_SYNC K \<notin> set chan \<Longrightarrow> decodeLoop K Decode ready chan = ([], ChannelClosed)"
  by (induction chan) (auto simp: decodeLoop.simps)

lemma decodeLoop_sync_only: "decodeLoop K Decode ready [MESG_TX_SYNC K] = ([], ChannelClosed)"
  by (simp add: decodeLoop.simps)

text \<open>
  From 252 on the sum \<open>length+4\<close> wraps around in \<open>uint8\<close>: the buffer has 0, 1,
  2 or 3 bytes. With 0 or 1 byte the stores \<open>buf[0]\<close> and \<open>buf[1]\<close> panic; with 2
  or 3 bytes the loop reads no or one further byte and passes the short buffer
  to \<open>Decode\<close>.
\<close>

lemma decodeLoop_252: "decodeLoop K Decode ready (MESG_TX_SYNC K # 252 # rest) = ([], DecodePanic (IndexOutOfRange 0 0))"
  by (simp add: store_def decodeLoop.simps)

lemma decodeLoop_253: "decodeLoop K Decode ready (MESG_TX_SYNC K # 253 # rest) = ([], DecodePanic (IndexOutOfRange 1 1))"
  by (simp add: store_def decodeLoop.simps)

lemma decodeLoop_254: "decodeLoop K Decode ready (MESG_TX_SYNC K # 254 # rest) =
   (case Decode [MESG_TX_SYNC K, 254] of
      None \<Rightarrow> emit [Decoded [MESG_TX_SYNC K, 254]] (decodeLoop K Decode ready rest)
    | Some msg \<Rightarrow> emit [Decoded [MESG_TX_SYNC K, 254], publish ready msg]
                (decodeLoop K Decode (tl ready) rest))"
proof -
  have n: "unat (254 + 4 :: byte) = 2" by simp
  have r: "replicate 2 (0 :: byte) = [0, 0]" by (simp add: numeral_2_eq_2)
  have s0: "store (replicate 2 0) 0 (MESG_TX_SYNC K) = Inr [MESG_TX_SYNC K, 0]"
    by (simp add: store_def r)
  have s1: "store [MESG_TX_SYNC K, 0] 1 254 = Inr [MESG_TX_SYNC K, 254]"
    by (simp add: store_def)
  have fb: "fill_buf 2 2 [MESG_TX_SYNC K, 254] rest = Some ([MESG_TX_SYNC K, 254], rest)"
    by (rule fill_buf_full) simp
  show ?thesis
    by (simp only: decodeLoop.simps n s0 s1 fb list.case sum.case option.case prod.case
          simp_thms if_False)
qed

lemma decodeLoop_255: "decodeLoop K Decode ready (MESG_TX_SYNC K # 255 # v # rest) =
   (case Decode [MESG_TX_SYNC K, 255, v] of
      None \<Rightarrow> emit [Decoded [MESG_TX_SYNC K, 255, v]] (decodeLoop K Decode ready rest)
    | Some msg \<Rightarrow> emit [Decoded [MESG_TX_SYNC K, 255, v], publish ready msg]
                (decodeLoop K Decode (tl ready) rest))"
proof -
  have n: "unat (255 + 4 :: byte) = 3" by simp
  have r: "replicate 3 (0 :: byte) = [0, 0, 0]" by (simp add: numeral_3_eq_3)
  have s0: "store (replicate 3 0) 0 (MESG_TX_SYNC K) = Inr [MESG_TX_SYNC K, 0, 0]"
    by (simp add: store_def r)
  have s1: "store [MESG_TX_SYNC K, 0, 0] 1 255 = Inr [MESG_TX_SYNC K, 255, 0]"
    by (simp add: store_def)
  have "fill_buf 2 3 [MESG_TX_SYNC K, 255, 0] (v # rest) =
        fill_buf 3 3 [MESG_TX_SYNC K, 255, v] rest"
    by (simp add: numeral_3_eq_3 numeral_2_eq_2)
  then have fb: "fill_buf 2 3 [MESG_TX_SYNC K, 255, 0] (v # rest) =
        Some ([MESG_TX_SYNC K, 255, v], rest)"
    by (simp add: fill_buf_full)
  show ?thesis
    by (simp only: decodeLoop.simps n s0 s1 fb list.case sum.case option.case prod.case
          simp_thms if_False)
qed

lemma decodeLoop_255_closed:
  "decodeLoop K Decode ready [MESG_TX_SYNC K, 255] = ([], ChannelClosed)"
proof -
  have n: "unat (255 + 4 :: byte) = 3" by simp
  have r: "replicate 3 (0 :: byte) = [0, 0, 0]" by (simp add: numeral_3_eq_3)
  have s0: "store (replicate 3 0) 0 (MESG_TX_SYNC K) = Inr [MESG_TX_SYNC K, 0, 0]"
    by (simp add: store_def r)
  have s1: "store [MESG_TX_SYNC K, 0, 0] 1 255 = Inr [MESG_TX_SYNC K, 255, 0]"
    by (simp add: store_def)
  have fb: "fill_buf 2 3 [MESG_TX_SYNC K, 255, 0] [] = None" by simp
  show ?thesis
    by (simp only: decodeLoop.simps n s0 s1 fb list.case sum.case option.case prod.case
          simp_thms if_False)
qed

lemma first_codec_call:
  "take 1 (codec_calls (fst (case d of None \<Rightarrow> emit [Decoded buf] r1
                                   | Some msg \<Rightarrow> emit [Decoded buf, e msg] (r2 msg)))) = [buf]"
  by (cases d) (simp_all add: emit_def)

subsection \<open>Claims on the frame decoder\<close>

text \<open>
  Claim C1, as far as the code keeps it. For a length byte \<open>L \<le> 251\<close> read after a
  SYNC byte, the decoder takes exactly the next \<open>L + 2\<close> bytes from the channel and
  passes to the codec the buffer of \<open>L + 4\<close> bytes that holds SYNC, \<open>L\<close> and those
  bytes in order; it then goes on with the byte after them.
\<close>

theorem decodeLoop_assembles_frame:
  assumes "unat L \<le> 251" and "length body = unat L + 2"
  shows "length (MESG_TX_SYNC K # L # body) = unat L + 4 \<and>
         decodeLoop K Decode ready (MESG_TX_SYNC K # L # body @ rest) =
         (case Decode (MESG_TX_SYNC K # L # body) of
            None \<Rightarrow> emit [Decoded (MESG_TX_SYNC K # L # body)] (decodeLoop K Decode ready rest)
          | Some msg \<Rightarrow>
              emit [Decoded (MESG_TX_SYNC K # L # body), publish ready msg]
                (decodeLoop K Decode (tl ready) rest))"
  using assms decodeLoop_frame [OF assms] by simp

theorem decodeLoop_assembles_frame_witness:
  "unat (1 :: byte) \<le> 251 \<and> length [0x40, 5, 0xE0 :: byte] = unat (1 :: byte) + 2 \<and>
   decodeLoop sample_consts sample_Decode [True] [0xA4, 1, 0x40, 5, 0xE0, 9, 9] =
     ([Decoded [0xA4, 1, 0x40, 5, 0xE0], Published (NewMessage 0x40 [5])], ChannelClosed)"
  using decodeLoop_assembles_frame [of 1 "[0x40, 5, 0xE0]" sample_consts sample_Decode "[True]" "[9, 9]"]
  by (simp add: sample_consts_def sample_Decode_def emit_def publish_def decodeLoop_no_sync)

text \<open>
  Claim C1, where the code breaks it. The claim speaks of every length byte from 0 to 255.
  For \<open>L = 252\<close> and \<open>L = 253\<close> the decoder panics on an index out of range, on a
  buffer of 0 and of 1 byte. For \<open>L = 254\<close> it passes the 2 bytes \<open>[SYNC, 254]\<close> to
  the codec and has read nothing more; for \<open>L = 255\<close> it passes 3 bytes and has read
  one more byte. In none of the four cases a buffer of \<open>L + 4\<close> bytes exists.
\<close>

theorem decodeLoop_length_overflow:
  "decodeLoop K Decode ready (MESG_TX_SYNC K # 252 # rest) = ([], DecodePanic (IndexOutOfRange 0 0)) \<and>
   decodeLoop K Decode ready (MESG_TX_SYNC K # 253 # rest) = ([], DecodePanic (IndexOutOfRange 1 1)) \<and>
   take 1 (codec_calls (fst (decodeLoop K Decode ready (MESG_TX_SYNC K # 254 # rest)))) =
     [[MESG_TX_SYNC K, 254]] \<and>
   take 1 (codec_calls (fst (decodeLoop K Decode ready (MESG_TX_SYNC K # 255 # v # rest)))) =
     [[MESG_TX_SYNC K, 255, v]]"
  by (simp only: decodeLoop_252 decodeLoop_253 decodeLoop_254 decodeLoop_255 first_codec_call
        simp_thms)

theorem decodeLoop_length_overflow_witness:
  "decodeLoop sample_consts sample_Decode [True] [0xA4, 252, 1, 2, 3] =
     ([], DecodePanic (IndexOutOfRange 0 0)) \<and>
   decodeLoop sample_consts sample_Decode [True] [0xA4, 253, 1, 2, 3] =
     ([], DecodePanic (IndexOutOfRange 1 1)) \<and>
   take 1 (codec_calls (fst (decodeLoop sample_consts sample_Decode [True] [0xA4, 254, 1, 2, 3]))) =
     [[0xA4, 254]] \<and>
   take 1 (codec_calls (fst (decodeLoop sample_consts sample_Decode [True] [0xA4, 255, 1, 2, 3]))) =
     [[0xA4, 255, 1]]"
  using decodeLoop_length_overflow [of sample_consts sample_Decode "[True]" "[1, 2, 3]" 1 ]
    decodeLoop_length_overflow [of sample_consts sample_Decode "[True]" "[2, 3]" 1 ]
  by (simp add: sample_consts_def)

text \<open>
  Claim C2 as stated fails. A frame that fails validation, then a valid frame, and no
  receiver waiting on \<open>read\<close> when the second frame is decoded: the \<open>select\<close>
  takes its \<open>default\<close> branch and no Message is emitted at all. And when the frame that
  fails validation has the length byte 252, the decoder panics before it reaches the
  valid frame.
\<close>

theorem decodeLoop_resynchronizes_counterexample:
  "sample_Decode [0xA4, 1, 0x40, 5, 0xE1] = None \<and>
   sample_Decode [0xA4, 1, 0x40, 5, 0xE0] = Some (NewMessage 0x40 [5]) \<and>
   published (fst (decodeLoop sample_consts sample_Decode [False]
     [0xA4, 1, 0x40, 5, 0xE1, 0xA4, 1, 0x40, 5, 0xE0])) = [] \<and>
   sample_Decode (0xA4 # 252 # replicate 254 0) = None \<and>
   decodeLoop sample_consts sample_Decode [True]
     ((0xA4 # 252 # replicate 254 0) @ [0xA4, 1, 0x40, 5, 0xE0]) =
     ([], DecodePanic (IndexOutOfRange 0 0))"
  by code_simp

text \<open>
  Claim C2, amended. A frame with a length byte of at most 251 that fails validation, and
  right after it a valid frame with a length byte of at most 251: the decoder passes the
  first to the codec and drops it without any other effect, finds the SYNC byte of the
  second, decodes it, and makes one attempt to send its Message on \<open>read\<close>. The Message
  is emitted when a receiver waits at that moment, and dropped otherwise. When the channel
  is closed after the second frame the loop returns; the failure of the first frame shows
  nowhere but in the two calls of the codec.
\<close>

theorem decodeLoop_resynchronizes:
  assumes "unat L1 \<le> 251" and "length body1 = unat L1 + 2"
    and "unat L2 \<le> 251" and "length body2 = unat L2 + 2"
    and "Decode (MESG_TX_SYNC K # L1 # body1) = None"
    and "Decode (MESG_TX_SYNC K # L2 # body2) = Some msg"
  shows "decodeLoop K Decode ready
           ((MESG_TX_SYNC K # L1 # body1) @ (MESG_TX_SYNC K # L2 # body2) @ rest) =
         emit [Decoded (MESG_TX_SYNC K # L1 # body1), Decoded (MESG_TX_SYNC K # L2 # body2),
               publish ready msg]
           (decodeLoop K Decode (tl ready) rest) \<and>
         decodeLoop K Decode ready ((MESG_TX_SYNC K # L1 # body1) @ (MESG_TX_SYNC K # L2 # body2)) =
           ([Decoded (MESG_TX_SYNC K # L1 # body1), Decoded (MESG_TX_SYNC K # L2 # body2),
             publish ready msg], ChannelClosed) \<and>
         published [Decoded (MESG_TX_SYNC K # L1 # body1), Decoded (MESG_TX_SYNC K # L2 # body2),
             publish ready msg] = (if ready \<noteq> [] \<and> hd ready then [msg] else [])"
proof -
  have a: "decodeLoop K Decode ready
           ((MESG_TX_SYNC K # L1 # body1) @ (MESG_TX_SYNC K # L2 # body2) @ rest) =
         emit [Decoded (MESG_TX_SYNC K # L1 # body1), Decoded (MESG_TX_SYNC K # L2 # body2),
               publish ready msg]
           (decodeLoop K Decode (tl ready) rest)" for rest
    using decodeLoop_frame [OF assms(1,2), of K Decode ready "(MESG_TX_SYNC K # L2 # body2) @ rest"]
      decodeLoop_frame [OF assms(3,4), of K Decode ready rest] assms(5,6)
    by (simp add: emit_def)
  from a [of "[]"] have b: "decodeLoop K Decode ready
      ((MESG_TX_SYNC K # L1 # body1) @ (MESG_TX_SYNC K # L2 # body2)) =
      ([Decoded (MESG_TX_SYNC K # L1 # body1), Decoded (MESG_TX_SYNC K # L2 # body2),
        publish ready msg], ChannelClosed)"
    by (simp add: emit_def)
  have c: "published [Decoded (MESG_TX_SYNC K # L1 # body1), Decoded (MESG_TX_SYNC K # L2 # body2),
             publish ready msg] = (if ready \<noteq> [] \<and> hd ready then [msg] else [])"
    by (simp add: publish_def)
  from a b c show ?thesis by blast
qed

theorem decodeLoop_resynchronizes_witness:
  "unat (1 :: byte) \<le> 251 \<and> length [0x40, 5, 0xE1 :: byte] = unat (1 :: byte) + 2 \<and>
   length [0x40, 5, 0xE0 :: byte] = unat (1 :: byte) + 2 \<and>
   sample_Decode [0xA4, 1, 0x40, 5, 0xE1] = None \<and>
   sample_Decode [0xA4, 1, 0x40, 5, 0xE0] = Some (NewMessage 0x40 [5]) \<and>
   decodeLoop sample_consts sample_Decode [True]
     [0xA4, 1, 0x40, 5, 0xE1, 0xA4, 1, 0x40, 5, 0xE0] =
     ([Decoded [0xA4, 1, 0x40, 5, 0xE1], Decoded [0xA4, 1, 0x40, 5, 0xE0],
       Published (NewMessage 0x40 [5])], ChannelClosed)"
  using decodeLoop_resynchronizes [of 1 "[0x40, 5, 0xE1]" 1 "[0x40, 5, 0xE0]" sample_Decode
      sample_consts "NewMessage 0x40 [5]" "[True]" "[]"]
  by (simp add: sample_consts_def sample_Decode_def publish_def emit_def)

text \<open>
  Claim C6, as far as the code keeps it. The channel is closed while the decoder seeks the
  SYNC byte, or right after the SYNC byte, or after a length byte of at most 251 and fewer
  than \<open>length + 2\<close> further bytes: the loop returns, no Message is emitted and the
  codec is not called.
\<close>

theorem decodeLoop_partial_frame:
  "(MESG_TX_SYNC K \<notin> set chan \<longrightarrow> decodeLoop K Decode ready chan = ([], ChannelClosed)) \<and>
   decodeLoop K Decode ready [MESG_TX_SYNC K] = ([], ChannelClosed) \<and>
   (unat L \<le> 251 \<and> length part < unat L + 2 \<longrightarrow>
      decodeLoop K Decode ready (MESG_TX_SYNC K # L # part) = ([], ChannelClosed))"
  using decodeLoop_no_sync [of K chan Decode ready] decodeLoop_partial [of L part K Decode ready]
    decodeLoop_sync_only [of K Decode ready]
  by simp

theorem decodeLoop_partial_frame_witness:
  "MESG_TX_SYNC sample_consts \<notin> set [1, 2, 3] \<and>
   decodeLoop sample_consts sample_Decode [True] [1, 2, 3] = ([], ChannelClosed) \<and>
   decodeLoop sample_consts sample_Decode [True] [0xA4] = ([], ChannelClosed) \<and>
   unat (1 :: byte) \<le> 251 \<and> length [0x40, 5 :: byte] < unat (1 :: byte) + 2 \<and>
   decodeLoop sample_consts sample_Decode [True] [0xA4, 1, 0x40, 5] = ([], ChannelClosed)"
  using decodeLoop_partial_frame [of sample_consts "[1, 2, 3]" sample_Decode "[True]" 1 "[0x40, 5]"]
  by (simp add: sample_consts_def)

text \<open>
  Claim C6, where the code breaks it. The channel is closed right after the length byte,
  and the length byte is 252 or 253: the decoder does not return, it panics on the store
  into its buffer of 0 or 1 byte. With the length byte 254 it passes the 2 bytes
  \<open>[SYNC, 254]\<close> to the codec as if they were a frame.
\<close>

theorem decodeLoop_closed_after_length:
  "decodeLoop K Decode ready [MESG_TX_SYNC K, 252] = ([], DecodePanic (IndexOutOfRange 0 0)) \<and>
   decodeLoop K Decode ready [MESG_TX_SYNC K, 253] = ([], DecodePanic (IndexOutOfRange 1 1)) \<and>
   take 1 (codec_calls (fst (decodeLoop K Decode ready [MESG_TX_SYNC K, 254]))) =
     [[MESG_TX_SYNC K, 254]]"
  by (simp only: decodeLoop_252 decodeLoop_253 decodeLoop_254 first_codec_call simp_thms)

theorem decodeLoop_closed_after_length_witness:
  "decodeLoop sample_consts sample_Decode [True] [0xA4, 252] =
     ([], DecodePanic (IndexOutOfRange 0 0)) \<and>
   decodeLoop sample_consts sample_Decode [True] [0xA4, 253] =
     ([], DecodePanic (IndexOutOfRange 1 1)) \<and>
   take 1 (codec_calls (fst (decodeLoop sample_consts sample_Decode [True] [0xA4, 254]))) =
     [[0xA4, 254]]"
  using decodeLoop_closed_after_length [of sample_consts sample_Decode "[True]"]
  by (simp add: sample_consts_def)

section \<open>Properties of the I/O pump\<close>

subsection \<open>Steps and runs\<close>


lemma ant_step_effect:
  assumes "ant_step Encode dev e dev1"
  shows "writeInTimeslot dev1 = writeInTimeslot dev @ timeslot_offers [e] \<and>
         driver_written dev1 = driver_written dev @ map Encode (transport_writes [e]) \<and>
         received [e] @ write_chan dev1 = write_chan dev @ write_offers [e]"
  using assms
proof cases
  case (pump b)
  from pump(2) show ?thesis unfolding pump(1) by cases simp_all
qed simp_all

lemma timeslot_offers_Cons: "timeslot_offers (e # es) = timeslot_offers [e] @ timeslot_offers es"
  by (cases e) simp_all

lemma write_offers_Cons: "write_offers (e # es) = write_offers [e] @ write_offers es"
  by (cases e) simp_all

lemma received_Cons: "received (e # es) = received [e] @ received es"
proof (cases e)
  case (Pump b)
  then show ?thesis by (cases b) simp_all
qed simp_all

lemma transport_writes_Cons: "transport_writes (e # es) = transport_writes [e] @ transport_writes es"
proof (cases e)
  case (Pump b)
  then show ?thesis by (cases b) simp_all
qed simp_all

lemma ant_run_effect:
  assumes "ant_run Encode dev es dev'"
  shows "writeInTimeslot dev' = writeInTimeslot dev @ timeslot_offers es \<and>
         driver_written dev' = driver_written dev @ map Encode (transport_writes es) \<and>
         received es @ write_chan dev' = write_chan dev @ write_offers es"
  using assms
proof (induction rule: ant_run.induct)
  case (run_nil dev)
  show ?case by simp
next
  case (run_cons dev e dev1 es dev')
  note s = ant_step_effect [OF run_cons.hyps(1)]
  note r = run_cons.IH
  have a: "writeInTimeslot dev' = writeInTimeslot dev @ timeslot_offers (e # es)"
    using s r by (simp add: timeslot_offers_Cons [of e es])
  have b: "driver_written dev' = driver_written dev @ map Encode (transport_writes (e # es))"
    using s r by (simp add: transport_writes_Cons [of e es])
  have "received (e # es) @ write_chan dev' = received [e] @ write_chan dev1 @ write_offers es"
    using r by (simp add: received_Cons [of e es])
  also have "\<dots> = write_chan dev @ write_offers [e] @ write_offers es"
    using s by (metis append.assoc)
  finally have c: "received (e # es) @ write_chan dev' = write_chan dev @ write_offers (e # es)"
    by (simp add: write_offers_Cons [of e es])
  from a b c show ?case by blast
qed

subsection \<open>Claims on the I/O pump\<close>




text \<open>
  Claim C8. In every run, whatever is offered on the timeslot channel stays there: the
  channel holds what it held before followed by all the Messages offered since, since no
  step of the loop receives from it. What the loop passes to the transport are the
  encodings of Messages it received from \<open>write\<close>, and those are the oldest offers on
  \<open>write\<close>. The shutdown step ends the loop with the timeslot offers still pending.
\<close>

theorem timeslot_never_written:
  assumes "ant_run Encode dev es dev'"
  shows "writeInTimeslot dev' = writeInTimeslot dev @ timeslot_offers es \<and>
         driver_written dev' = driver_written dev @ map Encode (transport_writes es) \<and>
         received es @ write_chan dev' = write_chan dev @ write_offers es"
  using assms by (rule ant_run_effect)

theorem timeslot_never_written_witness:
  "ant_run sample_Encode idle
     [OfferTimeslot (NewMessage 0x4F [1, 1, 2, 3, 4, 5, 6, 7, 8]), OfferWrite (NewMessage 0x4A [0]),
      Pump (Outbound (NewMessage 0x4A [0])), OfferStop, Pump Shutdown]
     (idle\<lparr>writeInTimeslot := [NewMessage 0x4F [1, 1, 2, 3, 4, 5, 6, 7, 8]],
            driver_written := [sample_Encode (NewMessage 0x4A [0])], stopped := True\<rparr>) \<and>
   writeInTimeslot (idle\<lparr>writeInTimeslot := [NewMessage 0x4F [1, 1, 2, 3, 4, 5, 6, 7, 8]],
            driver_written := [sample_Encode (NewMessage 0x4A [0])], stopped := True\<rparr>) =
     writeInTimeslot idle @ [NewMessage 0x4F [1, 1, 2, 3, 4, 5, 6, 7, 8]] \<and>
   driver_written (idle\<lparr>writeInTimeslot := [NewMessage 0x4F [1, 1, 2, 3, 4, 5, 6, 7, 8]],
            driver_written := [sample_Encode (NewMessage 0x4A [0])], stopped := True\<rparr>) =
     driver_written idle @ [sample_Encode (NewMessage 0x4A [0])]"
proof -
  let ?t = "NewMessage 0x4F [1, 1, 2, 3, 4, 5, 6, 7, 8]"
  let ?w = "NewMessage 0x4A [0]"
  let ?s1 = "idle\<lparr>writeInTimeslot := [?t]\<rparr>"
  let ?s2 = "idle\<lparr>writeInTimeslot := [?t], write_chan := [?w]\<rparr>"
  let ?s3 = "idle\<lparr>writeInTimeslot := [?t], write_chan := [], driver_written := [sample_Encode ?w]\<rparr>"
  let ?s4 = "idle\<lparr>writeInTimeslot := [?t], write_chan := [], driver_written := [sample_Encode ?w],
                stopper := True\<rparr>"
  let ?s5 = "idle\<lparr>writeInTimeslot := [?t], driver_written := [sample_Encode ?w], stopped := True\<rparr>"
  have a: "ant_step sample_Encode idle (OfferTimeslot ?t) ?s1"
    using ant_step.offer_timeslot [of idle sample_Encode ?t] by (simp add: idle_def)
  have b: "ant_step sample_Encode ?s1 (OfferWrite ?w) ?s2"
    using ant_step.offer_write [of ?s1 sample_Encode ?w] by (simp add: idle_def)
  have c: "ant_step sample_Encode ?s2 (Pump (Outbound ?w)) ?s3"
    using ant_step.pump [OF loop_step.outbound [of ?s2 ?w "[]" sample_Encode]]
    by (simp add: idle_def)
  have d: "ant_step sample_Encode ?s3 OfferStop ?s4"
    using ant_step.offer_stop [of sample_Encode ?s3] by (simp add: idle_def)
  have e: "ant_step sample_Encode ?s4 (Pump Shutdown) ?s5"
    using ant_step.pump [OF loop_step.shutdown [of ?s4 sample_Encode]]
    by (simp add: idle_def)
  have run: "ant_run sample_Encode idle
     [OfferTimeslot ?t, OfferWrite ?w, Pump (Outbound ?w), OfferStop, Pump Shutdown] ?s5"
    by (intro ant_run.run_cons [OF a] ant_run.run_cons [OF b] ant_run.run_cons [OF c]
          ant_run.run_cons [OF d] ant_run.run_cons [OF e] ant_run.run_nil)
  from timeslot_never_written [OF run] run show ?thesis by simp
qed

end
